theory Spec2Isabelle
  imports Main "HOL-Library.Sublist"
begin

section \<open>Python string primitives used by the log analyser\<close>

text \<open>
  The log and every text derived from it are modelled as \<^typ>\<open>string\<close>, one
  \<^typ>\<open>char\<close> per character of the Python \<open>str\<close>. Character classes are the
  ASCII ones: for characters below 128 they are what \<open>str.isspace\<close>, \<open>\d\<close>,
  \<open>\w\<close> and \<open>str.lower\<close> decide; characters from 128 on are taken as neither space,
  digit nor word character and are left alone by \<open>lower\<close>. The only non-ASCII
  character the program itself writes is the bullet U+2022 of the summary, given here
  by its three UTF-8 bytes.
\<close>

definition nl :: char where
  "nl = CHR 0x0A"

definition is_space :: "char \<Rightarrow> bool" where
  "is_space c = (c = CHR 0x09 \<or> c = CHR 0x0A \<or> c = CHR 0x0B \<or> c = CHR 0x0C \<or> c = CHR 0x0D
     \<or> c = CHR 0x1C \<or> c = CHR 0x1D \<or> c = CHR 0x1E \<or> c = CHR 0x1F \<or> c = CHR '' '')"

definition is_digit :: "char \<Rightarrow> bool" where
  "is_digit c = (c \<in> set ''0123456789'')"

definition is_word :: "char \<Rightarrow> bool" where
  "is_word c =
     (c \<in> set ''abcdefghijklmnopqrstuvwxyzABCDEFGHIJKLMNOPQRSTUVWXYZ0123456789_'')"

definition lower_char :: "char \<Rightarrow> char" where
  "lower_char c =
     (case map_of (zip ''ABCDEFGHIJKLMNOPQRSTUVWXYZ'' ''abcdefghijklmnopqrstuvwxyz'') c of
        Some l \<Rightarrow> l
      | None \<Rightarrow> c)"

text \<open>\<open>s.lower()\<close>\<close>

definition lower :: "string \<Rightarrow> string" where
  "lower s = map lower_char s"

text \<open>\<open>s.strip()\<close>\<close>

definition strip :: "string \<Rightarrow> string" where
  "strip s = rev (dropWhile is_space (rev (dropWhile is_space s)))"

text \<open>\<open>s.startswith(p)\<close>, the prefix first.\<close>

definition startswith :: "string \<Rightarrow> string \<Rightarrow> bool" where
  "startswith p s = (take (length p) s = p)"

text \<open>\<open>sub in s\<close>, the substring first.\<close>

fun contains :: "string \<Rightarrow> string \<Rightarrow> bool" where
  "contains sub [] = (sub = [])"
| "contains sub (c # cs) = (startswith sub (c # cs) \<or> contains sub cs)"

text \<open>\<open>s.replace(old, new)\<close> for a non-empty \<open>old\<close>: the occurrences are replaced
  from left to right, without overlap. (Both calls of the program pass a literal.)\<close>

function py_replace :: "string \<Rightarrow> string \<Rightarrow> string \<Rightarrow> string" where
  "py_replace old new s =
     (if s = [] then []
      else if old \<noteq> [] \<and> startswith old s then new @ py_replace old new (drop (length old) s)
      else hd s # py_replace old new (tl s))"
  by pat_completeness auto
termination
  by (relation "measure (\<lambda>(old, new, s). length s)") auto

declare py_replace.simps [simp del]

text \<open>\<open>s.split('\n')\<close>: never empty, \<open>''.split('\n') == ['']\<close>.\<close>

fun split_nl :: "string \<Rightarrow> string list" where
  "split_nl [] = [[]]"
| "split_nl (c # cs) =
     (if c = nl then [] # split_nl cs
      else (case split_nl cs of
              [] \<Rightarrow> [[c]]
            | l # ls \<Rightarrow> (c # l) # ls))"

text \<open>\<open>'\n'.join(ls)\<close>\<close>

fun join_nl :: "string list \<Rightarrow> string" where
  "join_nl [] = []"
| "join_nl [l] = l"
| "join_nl (l # ls) = l @ nl # join_nl ls"

text \<open>\<open>str(n)\<close> for a natural number, as the f-strings print it.\<close>

definition digit_char :: "nat \<Rightarrow> char" where
  "digit_char d = ''0123456789'' ! d"

fun str_nat :: "nat \<Rightarrow> string" where
  "str_nat n = (if n < 10 then [digit_char n] else str_nat (n div 10) @ [digit_char (n mod 10)])"

declare str_nat.simps [simp del]

subsection \<open>The regular expressions of the program\<close>

text \<open>\<open>re.search(MARKER + r'(.+)', line)\<close> for a literal marker: the leftmost place
  where the marker is followed by at least one character other than a newline; group 1
  is the greedy run of such characters.\<close>

fun marker_rest :: "string \<Rightarrow> string \<Rightarrow> string option" where
  "marker_rest m [] = None"
| "marker_rest m (c # cs) =
     (if startswith m (c # cs) \<and> takeWhile (\<lambda>x. x \<noteq> nl) (drop (length m) (c # cs)) \<noteq> []
      then Some (takeWhile (\<lambda>x. x \<noteq> nl) (drop (length m) (c # cs)))
      else marker_rest m cs)"

text \<open>\<open>re.search(r'exit code (\d+)', line)\<close>: the leftmost \<open>exit code \<close> that a digit
  follows; group 1 is the greedy run of digits.\<close>

fun exit_code_match :: "string \<Rightarrow> string option" where
  "exit_code_match [] = None"
| "exit_code_match (c # cs) =
     (if startswith ''exit code '' (c # cs) \<and> takeWhile is_digit (drop 10 (c # cs)) \<noteq> []
      then Some (takeWhile is_digit (drop 10 (c # cs)))
      else exit_code_match cs)"

text \<open>\<open>\w+LIT\<close> matched at the start of a text: one word character, then either the
  literal or more of \<open>\w+LIT\<close>.\<close>

fun word_then :: "string \<Rightarrow> string \<Rightarrow> bool" where
  "word_then lit [] = False"
| "word_then lit (c # cs) = (is_word c \<and> (startswith lit cs \<or> word_then lit cs))"

text \<open>\<open>re.match(r'^\s*\w+LIT', line)\<close>. No character is both a space and a word
  character, so \<open>\s*\<close> takes the whole leading run of spaces.\<close>

definition match_ws_word :: "string \<Rightarrow> string \<Rightarrow> bool" where
  "match_ws_word lit line = word_then lit (dropWhile is_space line)"

text \<open>The stop test of the traceback scan, its four alternatives in source order.\<close>

definition is_exception_line :: "string \<Rightarrow> bool" where
  "is_exception_line next_line =
     (match_ws_word ''Error:'' next_line \<or>
      match_ws_word ''Exception:'' next_line \<or>
      match_ws_word ''Warning:'' next_line \<or>
      (contains ''Error:'' next_line \<or> contains ''Exception:'' next_line \<or>
       contains ''Warning:'' next_line))"

text \<open>\<open>re.search(r'(FAILED|ERROR|FAIL)', line) and
  ('test' in line.lower() or 'pytest' in line.lower())\<close>\<close>

definition is_test_failure_line :: "string \<Rightarrow> bool" where
  "is_test_failure_line line =
     ((contains ''FAILED'' line \<or> contains ''ERROR'' line \<or> contains ''FAIL'' line) \<and>
      (contains ''test'' (lower line) \<or> contains ''pytest'' (lower line)))"

section \<open>Data of one analysis\<close>

text \<open>The operations of Python that raise \<open>IndexError\<close>: \<open>xs[i]\<close>, \<open>xs[-1]\<close> and
  \<open>xs.pop()\<close>. The analyser returns \<open>Inl\<close> where the program would raise.\<close>

datatype py_error = IndexError

definition py_index :: "'a list \<Rightarrow> nat \<Rightarrow> py_error + 'a" where
  "py_index xs i = (if i < length xs then Inr (xs ! i) else Inl IndexError)"

definition py_last :: "'a list \<Rightarrow> py_error + 'a" where
  "py_last xs = (if xs = [] then Inl IndexError else Inr (last xs))"

definition py_pop :: "'a list \<Rightarrow> py_error + 'a list" where
  "py_pop xs = (if xs = [] then Inl IndexError else Inr (butlast xs))"

text \<open>An entry of \<open>failed_steps\<close>: the dictionary \<open>{'name': ..., 'errors': [...]}\<close>.\<close>

record failed_step =
  name :: string
  errors :: "string list"

text \<open>The local variables of \<open>analyze_log_errors\<close> that live across the loop over the
  lines. \<open>current_step\<close> is \<open>None\<close> or a string; the top of \<open>step_stack\<close> is its
  last element.\<close>

record state =
  current_step :: "string option"
  step_stack :: "string list"
  failed_steps :: "failed_step list"
  error_messages :: "string list"
  in_error_section :: bool
  error_context :: "string list"
  exit_codes :: "(string \<times> string option) list"

definition init_state :: state where
  "init_state = \<lparr>current_step = None, step_stack = [], failed_steps = [],
     error_messages = [], in_error_section = False, error_context = [], exit_codes = []\<rparr>"

text \<open>\<open>if current_step:\<close> holds for a string that is not empty; \<open>active_step\<close> is
  that string, and \<open>None\<close> when the test fails (\<open>None\<close> or \<open>''\<close>).\<close>

definition active_step :: "state \<Rightarrow> string option" where
  "active_step st =
     (case current_step st of
        None \<Rightarrow> None
      | Some n \<Rightarrow> if n = [] then None else Some n)"

text \<open>The search loops \<open>for step in failed_steps: if step['name'] == step_name: ... break\<close>:
  whether an entry of that name exists, and the update of the first one.\<close>

definition has_step :: "string \<Rightarrow> failed_step list \<Rightarrow> bool" where
  "has_step n fs = list_ex (\<lambda>s. name s = n) fs"

fun update_first :: "string \<Rightarrow> (failed_step \<Rightarrow> failed_step) \<Rightarrow> failed_step list \<Rightarrow> failed_step list" where
  "update_first n f [] = []"
| "update_first n f (s # ss) = (if name s = n then f s # ss else s # update_first n f ss)"

section \<open>The loop body of \<open>analyze_log_errors\<close>, one block of the source each\<close>

text \<open>Lines 356-361: a group opens.\<close>

definition on_group :: "string \<Rightarrow> state \<Rightarrow> state" where
  "on_group line st =
     (if contains ''##[group]'' line then
        (case marker_rest ''##[group]'' line of
           None \<Rightarrow> st
         | Some g \<Rightarrow>
             (let step_name = strip g
              in st\<lparr>step_stack := step_stack st @ [step_name], current_step := Some step_name\<rparr>))
      else st)"

text \<open>Lines 364-367: a group closes. The pop and the read of the new top are the
  raising operations of Python, behind the guards the source has.\<close>

definition on_endgroup :: "string \<Rightarrow> state \<Rightarrow> py_error + state" where
  "on_endgroup line st =
     (if contains ''##[endgroup]'' line then
        (if step_stack st \<noteq> [] then
           (case py_pop (step_stack st) of
              Inl e \<Rightarrow> Inl e
            | Inr stk \<Rightarrow>
                (if stk \<noteq> [] then
                   (case py_last stk of
                      Inl e \<Rightarrow> Inl e
                    | Inr new_top \<Rightarrow> Inr (st\<lparr>step_stack := stk, current_step := Some new_top\<rparr>))
                 else Inr (st\<lparr>step_stack := stk, current_step := None\<rparr>)))
         else Inr st)
      else Inr st)"

text \<open>Lines 370-376: a command line names the step when none is current.\<close>

definition command_step_name :: "string \<Rightarrow> string" where
  "command_step_name cmd = ''Command: '' @ take 50 cmd"

definition on_command :: "string \<Rightarrow> state \<Rightarrow> state" where
  "on_command line st =
     (if contains ''##[command]'' line then
        (case marker_rest ''##[command]'' line of
           None \<Rightarrow> st
         | Some g \<Rightarrow>
             (let cmd = strip g
              in if active_step st = None
                 then st\<lparr>current_step := Some (command_step_name cmd)\<rparr>
                 else st))
      else st)"

text \<open>Lines 379-404: an error marker, or else the context lines after one.\<close>

definition on_error :: "string \<Rightarrow> state \<Rightarrow> state" where
  "on_error line st =
     (if contains ''##[error]'' line then
        (let st1 = st\<lparr>in_error_section := True\<rparr>;
             error_text = strip (py_replace ''##[error]'' [] line)
         in if error_text \<noteq> [] then
              (let st2 = st1\<lparr>error_messages := error_messages st1 @ [error_text]\<rparr>;
                   st3 = (case active_step st2 of
                            None \<Rightarrow> st2
                          | Some step_name \<Rightarrow>
                              if has_step step_name (failed_steps st2)
                              then st2\<lparr>failed_steps :=
                                     update_first step_name
                                       (\<lambda>step. step\<lparr>errors := errors step @ [error_text]\<rparr>)
                                       (failed_steps st2)\<rparr>
                              else st2\<lparr>failed_steps := failed_steps st2 @
                                     [\<lparr>name = step_name, errors = [error_text]\<rparr>]\<rparr>)
               in st3\<lparr>error_context := [error_text]\<rparr>)
            else st1)
      else if in_error_section st then
        (if strip line \<noteq> [] \<and> \<not> (startswith ''##'' line \<or> startswith ''2025-'' line) then
           (let st1 = st\<lparr>error_context := error_context st @ [strip line]\<rparr>
            in if length (error_context st1) > 8 then st1\<lparr>in_error_section := False\<rparr> else st1)
         else if contains ''##[group]'' line \<or> contains ''##[endgroup]'' line then
           st\<lparr>in_error_section := False\<rparr>
         else st)
      else st)"

text \<open>Lines 407-421: an exit code.\<close>

definition on_exit_code :: "string \<Rightarrow> state \<Rightarrow> state" where
  "on_exit_code line st =
     (if contains ''Process completed with exit code'' line then
        (case exit_code_match line of
           None \<Rightarrow> st
         | Some code \<Rightarrow>
             (let st1 = st\<lparr>exit_codes := exit_codes st @ [(code, current_step st)]\<rparr>
              in if code \<noteq> ''0'' then
                   (case active_step st1 of
                      None \<Rightarrow> st1
                    | Some step_name \<Rightarrow>
                        if has_step step_name (failed_steps st1) then st1
                        else st1\<lparr>failed_steps := failed_steps st1 @
                               [\<lparr>name = step_name,
                                 errors = [''Process exited with code '' @ code]\<rparr>]\<rparr>)
                 else st1))
      else st)"

text \<open>Lines 424-473: a traceback. \<open>file_quote\<close> is the text \<open>File "\<close>.\<close>

definition file_quote :: string where
  "file_quote = ''File '' @ [CHR 0x22]"

text \<open>The inner loop \<open>for k in range(j + 1, min(j + 5, len(lines)))\<close>, over the list of
  its indices: lines of context after the exception line, up to the first empty or
  marker line.\<close>

fun tb_context :: "string list \<Rightarrow> nat list \<Rightarrow> string list \<Rightarrow> py_error + string list" where
  "tb_context lines [] tb_lines = Inr tb_lines"
| "tb_context lines (k # ks) tb_lines =
     (case py_index lines k of
        Inl e \<Rightarrow> Inl e
      | Inr l \<Rightarrow>
          if strip l \<noteq> [] \<and> \<not> startswith ''##'' (strip l)
          then tb_context lines ks (tb_lines @ [l])
          else Inr tb_lines)"

text \<open>The loop \<open>for j in range(i + 1, min(i + 40, len(lines)))\<close>, over the list of its
  indices. \<open>exception_found\<close> is set only on the way to the first \<open>break\<close>, so it is
  \<open>False\<close> wherever the second \<open>break\<close> tests it.\<close>

fun tb_scan :: "string list \<Rightarrow> nat list \<Rightarrow> string list \<Rightarrow> py_error + string list" where
  "tb_scan lines [] tb_lines = Inr tb_lines"
| "tb_scan lines (j # js) tb_lines =
     (case py_index lines j of
        Inl e \<Rightarrow> Inl e
      | Inr next_line \<Rightarrow>
          (let tb1 = tb_lines @ [next_line]
           in if is_exception_line next_line then
                tb_context lines [j + 1 ..< min (j + 5) (length lines)] tb1
              else if contains ''##['' next_line \<and> \<not> contains ''Traceback'' next_line \<and>
                      \<not> contains file_quote next_line then
                (if \<not> False \<and> \<not> list_ex (contains file_quote) (drop (length tb1 - 3) tb1)
                 then Inr tb1
                 else tb_scan lines js tb1)
              else tb_scan lines js tb1))"

definition tb_capture :: "string list \<Rightarrow> nat \<Rightarrow> string \<Rightarrow> py_error + string list" where
  "tb_capture lines i line = tb_scan lines [i + 1 ..< min (i + 40) (length lines)] [line]"

definition is_traceback_line :: "string \<Rightarrow> bool" where
  "is_traceback_line line = (contains ''Traceback'' line \<or> contains ''traceback'' (lower line))"

definition on_traceback :: "string list \<Rightarrow> nat \<Rightarrow> string \<Rightarrow> state \<Rightarrow> py_error + state" where
  "on_traceback lines i line st =
     (if is_traceback_line line then
        (let st1 = (case active_step st of
                      None \<Rightarrow> st
                    | Some step_name \<Rightarrow>
                        if has_step step_name (failed_steps st) then st
                        else st\<lparr>failed_steps := failed_steps st @
                               [\<lparr>name = step_name, errors = []\<rparr>]\<rparr>)
         in case tb_capture lines i line of
              Inl e \<Rightarrow> Inl e
            | Inr tb_lines \<Rightarrow>
                if tb_lines \<noteq> [] then
                  (let tb_text = join_nl (take 30 tb_lines);
                       st2 = st1\<lparr>error_messages := error_messages st1 @ [tb_text]\<rparr>
                   in Inr (case active_step st2 of
                             None \<Rightarrow> st2
                           | Some cur \<Rightarrow>
                               st2\<lparr>failed_steps :=
                                 update_first cur
                                   (\<lambda>step. let tb_preview = take 1000 tb_text
                                           in if tb_preview \<notin> set (errors step)
                                              then step\<lparr>errors := errors step @ [tb_preview]\<rparr>
                                              else step)
                                   (failed_steps st2)\<rparr>))
                else Inr st1)
      else Inr st)"

text \<open>Lines 476-487: a test failure.\<close>

definition on_test_failure :: "string \<Rightarrow> state \<Rightarrow> state" where
  "on_test_failure line st =
     (if is_test_failure_line line then
        (case active_step st of
           None \<Rightarrow> st
         | Some step_name \<Rightarrow>
             if has_step step_name (failed_steps st)
             then st\<lparr>failed_steps :=
                    update_first step_name
                      (\<lambda>step. if strip line \<notin> set (errors step)
                              then step\<lparr>errors := errors step @ [take 200 (strip line)]\<rparr>
                              else step)
                      (failed_steps st)\<rparr>
             else st\<lparr>failed_steps := failed_steps st @
                    [\<lparr>name = step_name, errors = [take 200 (strip line)]\<rparr>]\<rparr>)
      else st)"

text \<open>The body of \<open>for i, line in enumerate(lines)\<close>, and the loop.\<close>

definition step_line :: "string list \<Rightarrow> nat \<Rightarrow> string \<Rightarrow> state \<Rightarrow> py_error + state" where
  "step_line lines i line st =
     (case on_endgroup line (on_group line st) of
        Inl e \<Rightarrow> Inl e
      | Inr st2 \<Rightarrow>
          (case on_traceback lines i line
                  (on_exit_code line (on_error line (on_command line st2))) of
             Inl e \<Rightarrow> Inl e
           | Inr st6 \<Rightarrow> Inr (on_test_failure line st6)))"

fun run_lines :: "string list \<Rightarrow> (nat \<times> string) list \<Rightarrow> state \<Rightarrow> py_error + state" where
  "run_lines lines [] st = Inr st"
| "run_lines lines ((i, line) # rest) st =
     (case step_line lines i line st of
        Inl e \<Rightarrow> Inl e
      | Inr st' \<Rightarrow> run_lines lines rest st')"

definition scan_log :: "string list \<Rightarrow> py_error + state" where
  "scan_log lines = run_lines lines (enumerate 0 lines) init_state"

section \<open>The table of failure patterns\<close>

text \<open>The shapes of the alternatives in the keys of \<open>failure_patterns\<close>: a literal, two
  literals around \<open>.*\<close>, and a literal before \<open>\d+\<close>.\<close>

datatype pat = Lit string | DotStar string string | LitDigits string

text \<open>\<open>a.*b\<close> somewhere in the text: \<open>.\<close> matches no newline.\<close>

fun dotstar_search :: "string \<Rightarrow> string \<Rightarrow> string \<Rightarrow> bool" where
  "dotstar_search a b [] = False"
| "dotstar_search a b (c # cs) =
     ((startswith a (c # cs) \<and>
       contains b (takeWhile (\<lambda>x. x \<noteq> nl) (drop (length a) (c # cs)))) \<or>
      dotstar_search a b cs)"

text \<open>\<open>a\d+\<close> somewhere in the text.\<close>

fun lit_digits_search :: "string \<Rightarrow> string \<Rightarrow> bool" where
  "lit_digits_search a [] = False"
| "lit_digits_search a (c # cs) =
     ((startswith a (c # cs) \<and> takeWhile is_digit (drop (length a) (c # cs)) \<noteq> []) \<or>
      lit_digits_search a cs)"

text \<open>One alternative under \<open>re.IGNORECASE\<close>: letters match in either case.\<close>

fun pat_search :: "pat \<Rightarrow> string \<Rightarrow> bool" where
  "pat_search (Lit a) s = contains (lower a) (lower s)"
| "pat_search (DotStar a b) s = dotstar_search (lower a) (lower b) (lower s)"
| "pat_search (LitDigits a) s = lit_digits_search (lower a) (lower s)"

text \<open>\<open>re.search(pattern, text, re.IGNORECASE)\<close> for a key of the table.\<close>

definition re_search_ci :: "pat list \<Rightarrow> string \<Rightarrow> bool" where
  "re_search_ci alts s = list_ex (\<lambda>p. pat_search p s) alts"

definition failure_patterns :: "(pat list \<times> string) list" where
  "failure_patterns =
    [([Lit ''ImportError'', Lit ''cannot import''], ''Import error detected''),
     ([Lit ''AttributeError'', Lit ''has no attribute''], ''Attribute error detected''),
     ([Lit ''TypeError'', Lit ''unsupported operand''], ''Type error detected''),
     ([Lit ''ValueError'', Lit ''invalid value''], ''Value error detected''),
     ([Lit ''ConnectionError'', Lit ''Connection refused'', Lit ''Connection timeout''],
      ''Connection error detected''),
     ([Lit ''TimeoutError'', Lit ''timed out''], ''Timeout error detected''),
     ([Lit ''AssertionError'', DotStar ''assert'' ''failed''], ''Test assertion failed''),
     ([Lit ''HTTPError'', LitDigits ''HTTP ''], ''HTTP error detected''),
     ([Lit ''Database error'', DotStar ''database'' ''error'', DotStar ''psql'' ''error''],
      ''Database error detected''),
     ([DotStar ''Test'' ''failed'', DotStar ''pytest'' ''FAILED''], ''Test failure detected'')]"

text \<open>Lines 528-532: the loop over the items of the table, in the order they were
  written.\<close>

definition match_patterns :: "(pat list \<times> string) list \<Rightarrow> string \<Rightarrow> string list" where
  "match_patterns table logs_lower =
     fold (\<lambda>(pattern, description) detected.
             if re_search_ci pattern logs_lower then detected @ [description] else detected)
       table []"

definition detect_patterns :: "string \<Rightarrow> string list" where
  "detect_patterns logs = match_patterns failure_patterns (lower logs)"

section \<open>The summary\<close>

definition banner :: string where
  "banner = replicate 80 CHR ''=''"

definition dashes :: string where
  "dashes = replicate 80 CHR ''-''"

definition bullet :: string where
  "bullet = [CHR 0xE2, CHR 0x80, CHR 0xA2]"

definition title_line :: string where
  "title_line = ''ERROR SUMMARY - Issues Found in This Workflow Run''"

definition header_lines :: "string list" where
  "header_lines = [banner, title_line, banner, []]"

definition trailer_lines :: "string list" where
  "trailer_lines = [banner, ''Full log follows below:'', banner, []]"

definition fallback_line :: string where
  "fallback_line = ''No explicit errors detected in log format.''"

text \<open>\<open>first_error.replace('\n', ' ').strip()[:250]\<close>\<close>

definition error_preview :: "string \<Rightarrow> string" where
  "error_preview first_error = take 250 (strip (py_replace [nl] '' '' first_error))"

text \<open>\<open>error_clean\<close> of lines 508-510, with the dots it may get.\<close>

definition error_clean :: "string \<Rightarrow> string" where
  "error_clean error =
     take 300 (strip (py_replace [nl] '' '' error)) @
     (if length error > 300 then ''...'' else [])"

text \<open>Lines 494-501 for one step; \<open>step['errors'][0]\<close> is the raising read.\<close>

definition render_step :: "failed_step \<Rightarrow> py_error + string list" where
  "render_step step =
     (let head_line = ''  '' @ bullet @ '' '' @ name step
      in if errors step \<noteq> [] then
           (case py_index (errors step) 0 of
              Inl e \<Rightarrow> Inl e
            | Inr first_error \<Rightarrow>
                Inr ([head_line, ''    Error: '' @ error_preview first_error] @
                     (if length (errors step) > 1
                      then [''    ('' @ str_nat (length (errors step)) @
                            '' more error(s) - see full log)'']
                      else [])))
         else Inr [head_line])"

fun render_steps :: "failed_step list \<Rightarrow> py_error + string list" where
  "render_steps [] = Inr []"
| "render_steps (step # steps) =
     (case render_step step of
        Inl e \<Rightarrow> Inl e
      | Inr ls \<Rightarrow>
          (case render_steps steps of
             Inl e \<Rightarrow> Inl e
           | Inr ls2 \<Rightarrow> Inr (ls @ ls2)))"

definition failed_section :: "failed_step list \<Rightarrow> py_error + string list" where
  "failed_section fs =
     (if fs \<noteq> [] then
        (case render_steps fs of
           Inl e \<Rightarrow> Inl e
         | Inr ls \<Rightarrow> Inr ([''FAILED STEPS:'', dashes] @ ls @ [[]]))
      else Inr [])"

definition key_section :: "string list \<Rightarrow> string list" where
  "key_section ems =
     (if ems \<noteq> [] then
        [''KEY ERROR MESSAGES:'', dashes] @
        map (\<lambda>(i, error). ''  '' @ str_nat i @ ''. '' @ error_clean error)
          (enumerate 1 (take 5 ems)) @
        [[]]
      else [])"

definition patterns_section :: "string list \<Rightarrow> string list" where
  "patterns_section dps =
     (if dps \<noteq> [] then
        [''DETECTED ISSUE TYPES:'', dashes] @
        map (\<lambda>pattern. ''  '' @ bullet @ '' '' @ pattern) dps @
        [[]]
      else [])"

definition exit_section :: "(string \<times> string option) list \<Rightarrow> string list" where
  "exit_section ecs =
     (if ecs \<noteq> [] then
        (let non_zero = filter (\<lambda>ec. fst ec \<noteq> ''0'') ecs
         in if non_zero \<noteq> [] then
              [''NON-ZERO EXIT CODES:'', dashes] @
              map (\<lambda>(code, step).
                     ''  '' @ bullet @ '' Exit code '' @ code @ '' in: '' @
                     (case step of
                        None \<Rightarrow> ''Unknown step''
                      | Some step_name \<Rightarrow> if step_name = [] then ''Unknown step'' else step_name))
                (take 5 non_zero) @
              [[]]
            else [])
      else [])"

definition fallback_section ::
  "failed_step list \<Rightarrow> string list \<Rightarrow> (string \<times> string option) list \<Rightarrow> string list" where
  "fallback_section fs ems ecs =
     (if fs = [] \<and> ems = [] \<and> ecs = []
      then [fallback_line, ''Check the full log below for details.'', []]
      else [])"

text \<open>\<open>summary_lines\<close> as it stands before the final join (lines 341-344 and
  490-559).\<close>

definition summary_lines ::
  "failed_step list \<Rightarrow> string list \<Rightarrow> string list \<Rightarrow> (string \<times> string option) list \<Rightarrow>
   py_error + string list" where
  "summary_lines fs ems dps ecs =
     (case failed_section fs of
        Inl e \<Rightarrow> Inl e
      | Inr fsec \<Rightarrow>
          Inr (header_lines @ fsec @ key_section ems @ patterns_section dps @
               exit_section ecs @ fallback_section fs ems ecs @ trailer_lines))"

text \<open>The whole function: the scan of the lines, the pattern table on the lower-cased
  log, the summary joined by newlines.\<close>

definition analyze_lines :: "string \<Rightarrow> py_error + string list" where
  "analyze_lines logs =
     (case scan_log (split_nl logs) of
        Inl e \<Rightarrow> Inl e
      | Inr st \<Rightarrow>
          summary_lines (failed_steps st) (error_messages st) (detect_patterns logs)
            (exit_codes st))"

definition analyze_log_errors :: "string \<Rightarrow> py_error + string" where
  "analyze_log_errors logs =
     (case analyze_lines logs of
        Inl e \<Rightarrow> Inl e
      | Inr ls \<Rightarrow> Inr (join_nl ls))"

section \<open>The traceback of the specification's example\<close>


text \<open>The exit-code line of the specification's example.\<close>

definition exit_1_line :: string where
  "exit_1_line = ''Process completed with exit code 1''"

text \<open>A state without findings, no step current and no group open.\<close>

definition quiet :: "state \<Rightarrow> bool" where
  "quiet st = (current_step st = None \<and> step_stack st = [] \<and> failed_steps st = [] \<and>
     error_messages st = [] \<and> exit_codes st = [])"

section \<open>No raising branch is reached\<close>

text \<open>The guard before the pop makes \<open>on_endgroup\<close> a total state update.\<close>

lemma on_endgroup_Inr:
  "on_endgroup line st =
     Inr (if contains ''##[endgroup]'' line \<and> step_stack st \<noteq> []
          then st\<lparr>step_stack := butlast (step_stack st),
                  current_step := (if butlast (step_stack st) = [] then None
                                   else Some (last (butlast (step_stack st))))\<rparr>
          else st)"
  by (simp add: on_endgroup_def py_pop_def py_last_def)

lemma tb_context_total:
  "\<forall>k \<in> set ks. k < length lines \<Longrightarrow> \<exists>r. tb_context lines ks tb = Inr r"
  by (induction ks arbitrary: tb) (auto simp: py_index_def)

lemma tb_scan_total:
  "\<forall>j \<in> set js. j < length lines \<Longrightarrow> \<exists>r. tb_scan lines js tb = Inr r"
proof (induction js arbitrary: tb)
  case Nil
  then show ?case by simp
next
  case (Cons j js)
  have ctx: "\<exists>r. tb_context lines [j + 1 ..< min (j + 5) (length lines)] tb' = Inr r" for tb'
    by (rule tb_context_total) simp
  from Cons show ?case
    using ctx by (auto simp: py_index_def Let_def)
qed

lemma tb_capture_total: "\<exists>r. tb_capture lines i line = Inr r"
  unfolding tb_capture_def by (rule tb_scan_total) simp

lemma on_traceback_total: "\<exists>st'. on_traceback lines i line st = Inr st'"
proof -
  obtain r where "tb_capture lines i line = Inr r"
    using tb_capture_total by blast
  then show ?thesis
    by (simp add: on_traceback_def Let_def)
qed

lemma step_line_total: "\<exists>st'. step_line lines i line st = Inr st'"
proof -
  obtain st2 where a: "on_endgroup line (on_group line st) = Inr st2"
    by (simp add: on_endgroup_Inr)
  obtain st6 where b: "on_traceback lines i line
      (on_exit_code line (on_error line (on_command line st2))) = Inr st6"
    using on_traceback_total by blast
  show ?thesis by (simp add: step_line_def a b)
qed

lemma run_lines_total: "\<exists>st'. run_lines lines ils st = Inr st'"
proof (induction ils arbitrary: st)
  case Nil
  then show ?case by simp
next
  case (Cons il ils)
  obtain i line where il: "il = (i, line)" by (cases il)
  obtain st1 where s: "step_line lines i line st = Inr st1"
    using step_line_total by blast
  show ?case using Cons.IH [of st1] by (simp add: il s)
qed

lemma render_step_total: "\<exists>ls. render_step step = Inr ls"
  by (simp add: render_step_def py_index_def Let_def)

lemma render_steps_total: "\<exists>ls. render_steps fs = Inr ls"
proof (induction fs)
  case Nil
  then show ?case by simp
next
  case (Cons step fs)
  obtain a where a: "render_step step = Inr a" using render_step_total by blast
  from Cons obtain b where b: "render_steps fs = Inr b" by blast
  show ?case by (simp add: a b)
qed

lemma failed_section_total: "\<exists>ls. failed_section fs = Inr ls"
proof -
  obtain a where a: "render_steps fs = Inr a" using render_steps_total by blast
  show ?thesis by (simp add: failed_section_def a)
qed

lemma summary_lines_shape:
  "\<exists>body. summary_lines fs ems dps ecs = Inr (header_lines @ body @ trailer_lines)"
proof -
  obtain a where a: "failed_section fs = Inr a" using failed_section_total by blast
  show ?thesis by (simp add: summary_lines_def a)
qed

lemma analyze_lines_shape:
  "\<exists>body. analyze_lines logs = Inr (header_lines @ body @ trailer_lines)"
proof -
  obtain st where st: "scan_log (split_nl logs) = Inr st"
    unfolding scan_log_def using run_lines_total by blast
  show ?thesis by (simp add: analyze_lines_def st summary_lines_shape)
qed

text \<open>
  Claim C5. For every input string, \<open>analyze_log_errors\<close> returns a summary string:
  the pop of the step stack, the reads \<open>lines[j]\<close> and \<open>lines[k]\<close> of the forward
  scans and the read of a step's first error never raise \<open>IndexError\<close>.
\<close>

theorem analyze_log_errors_returns: "\<exists>summary. analyze_log_errors logs = Inr summary"
proof -
  obtain body where "analyze_lines logs = Inr (header_lines @ body @ trailer_lines)"
    using analyze_lines_shape by blast
  then show ?thesis by (simp add: analyze_log_errors_def)
qed

section \<open>The pattern matcher\<close>

lemma match_patterns_fold:
  "fold (\<lambda>(pattern, description) detected.
           if re_search_ci pattern t then detected @ [description] else detected) table acc =
   acc @ map snd (filter (\<lambda>(pattern, description). re_search_ci pattern t) table)"
  by (induction table arbitrary: acc) (auto split: prod.splits)

lemma match_patterns_filter:
  "match_patterns table t =
   map snd (filter (\<lambda>(pattern, description). re_search_ci pattern t) table)"
  by (simp add: match_patterns_def match_patterns_fold)

lemma distinct_descriptions: "distinct (map snd failure_patterns)"
  by (simp add: failure_patterns_def)

text \<open>
  Claim C8. The pattern matcher is a function of the log text alone: its result is the
  list of the descriptions of the table entries whose pattern matches the lower-cased
  text, in table order, so two runs on the same text give the same list; every
  description occurs at most once, and the result is a subsequence of the table's
  descriptions.
\<close>

theorem detect_patterns_table_order:
  "detect_patterns logs =
     map snd (filter (\<lambda>(pattern, description). re_search_ci pattern (lower logs))
                failure_patterns) \<and>
   distinct (detect_patterns logs) \<and>
   subseq (detect_patterns logs) (map snd failure_patterns)"
proof -
  have eq: "detect_patterns logs =
     map snd (filter (\<lambda>(pattern, description). re_search_ci pattern (lower logs))
                failure_patterns)"
    by (simp add: detect_patterns_def match_patterns_filter)
  have d: "distinct (detect_patterns logs)"
    unfolding eq by (rule distinct_map_filter) (rule distinct_descriptions)
  have s: "subseq (detect_patterns logs) (map snd failure_patterns)"
    unfolding eq by (simp add: subseq_map)
  from eq d s show ?thesis by blast
qed

section \<open>Header and trailer of the summary\<close>

lemma join_nl_Cons: "ls \<noteq> [] \<Longrightarrow> join_nl (l # ls) = l @ nl # join_nl ls"
  by (cases ls) simp_all

lemma join_nl_append:
  "ys \<noteq> [] \<Longrightarrow> join_nl (xs @ ys) = concat (map (\<lambda>l. l @ [nl]) xs) @ join_nl ys"
  by (induction xs) (simp_all add: join_nl_Cons)

text \<open>
  Claim C9. For every log the summary begins with the banner of 80 \<open>=\<close>, the title
  line, the banner and an empty line, and ends with the banner, the line
  \<open>Full log follows below:\<close>, the banner and an empty last line (a final newline in
  the joined text), whatever the findings are.
\<close>

theorem summary_header_and_trailer:
  "\<exists>body.
     analyze_lines logs =
       Inr ([banner, title_line, banner, []] @ body @
            [banner, ''Full log follows below:'', banner, []]) \<and>
     analyze_log_errors logs =
       Inr (banner @ [nl] @ title_line @ [nl] @ banner @ [nl] @ [nl] @
            concat (map (\<lambda>l. l @ [nl]) body) @
            banner @ [nl] @ ''Full log follows below:'' @ [nl] @ banner @ [nl])"
proof -
  obtain body where b: "analyze_lines logs = Inr (header_lines @ body @ trailer_lines)"
    using analyze_lines_shape by blast
  have t: "join_nl trailer_lines =
      banner @ [nl] @ ''Full log follows below:'' @ [nl] @ banner @ [nl]"
    by (simp add: trailer_lines_def)
  have "join_nl (header_lines @ body @ trailer_lines) =
      concat (map (\<lambda>l. l @ [nl]) header_lines) @ concat (map (\<lambda>l. l @ [nl]) body) @
      join_nl trailer_lines"
    by (simp add: join_nl_append trailer_lines_def)
  then have "analyze_log_errors logs =
       Inr (banner @ [nl] @ title_line @ [nl] @ banner @ [nl] @ [nl] @
            concat (map (\<lambda>l. l @ [nl]) body) @
            banner @ [nl] @ ''Full log follows below:'' @ [nl] @ banner @ [nl])"
    by (simp add: analyze_log_errors_def b t header_lines_def)
  with b show ?thesis
    by (auto simp: header_lines_def trailer_lines_def)
qed

section \<open>Traceback capture\<close>

lemma tb_context_extends:
  "tb_context lines ks tb = Inr r \<Longrightarrow> \<exists>ext. r = tb @ ext"
proof (induction ks arbitrary: tb)
  case Nil
  then show ?case by simp
next
  case (Cons k ks)
  show ?case
  proof (cases "py_index lines k")
    case (Inl e)
    with Cons.prems show ?thesis by simp
  next
    case (Inr l)
    show ?thesis
    proof (cases "strip l \<noteq> [] \<and> \<not> startswith ''##'' (strip l)")
      case True
      with Cons.prems Inr have "tb_context lines ks (tb @ [l]) = Inr r" by simp
      from Cons.IH [OF this] show ?thesis by auto
    next
      case False
      with Cons.prems Inr show ?thesis by auto
    qed
  qed
qed

lemma tb_scan_extends:
  "tb_scan lines js tb = Inr r \<Longrightarrow> \<exists>ext. r = tb @ ext"
proof (induction js arbitrary: tb)
  case Nil
  then show ?case by simp
next
  case (Cons j js)
  then show ?case
    by (fastforce simp: Let_def split: sum.splits if_splits dest: tb_context_extends)
qed

lemma tb_capture_starts:
  "\<exists>ext. tb_capture lines i line = Inr (line # ext)"
proof -
  obtain r where r: "tb_capture lines i line = Inr r"
    using tb_capture_total by blast
  then obtain ext where "r = [line] @ ext"
    unfolding tb_capture_def using tb_scan_extends by blast
  with r show ?thesis by simp
qed

text \<open>
  Claim C10. On a traceback line met while no step is current, the captured block
  (which starts with the line itself) is appended to \<open>error_messages\<close>, and that is
  the only change of the state: \<open>failed_steps\<close> is left as it was.
\<close>

theorem traceback_without_step:
  assumes "is_traceback_line line" and "active_step st = None"
  shows "\<exists>more. tb_capture lines i line = Inr (line # more) \<and>
           on_traceback lines i line st =
             Inr (st\<lparr>error_messages := error_messages st @ [join_nl (take 30 (line # more))]\<rparr>) \<and>
           (\<forall>st'. on_traceback lines i line st = Inr st' \<longrightarrow> failed_steps st' = failed_steps st)"
proof -
  obtain ext where c: "tb_capture lines i line = Inr (line # ext)"
    using tb_capture_starts by blast
  have a: "active_step (st\<lparr>error_messages := ems\<rparr>) = None" for ems
    using assms(2) by (simp add: active_step_def)
  have "on_traceback lines i line st =
      Inr (st\<lparr>error_messages := error_messages st @ [join_nl (take 30 (line # ext))]\<rparr>)"
    using assms by (simp add: on_traceback_def c a Let_def)
  with c show ?thesis by auto
qed

theorem traceback_without_step_witness:
  "is_traceback_line ''Traceback (most recent call last):'' \<and>
   active_step init_state = None \<and>
   (\<exists>more. tb_capture [''Traceback (most recent call last):'', ''boom''] 0
              ''Traceback (most recent call last):'' =
              Inr (''Traceback (most recent call last):'' # more) \<and>
      on_traceback [''Traceback (most recent call last):'', ''boom''] 0
          ''Traceback (most recent call last):'' init_state =
        Inr (init_state\<lparr>error_messages := error_messages init_state @
               [join_nl (take 30 (''Traceback (most recent call last):'' # more))]\<rparr>) \<and>
      (\<forall>st'. on_traceback [''Traceback (most recent call last):'', ''boom''] 0
                ''Traceback (most recent call last):'' init_state = Inr st' \<longrightarrow>
             failed_steps st' = failed_steps init_state))"
proof -
  have h1: "is_traceback_line ''Traceback (most recent call last):''"
    by code_simp
  have h2: "active_step init_state = None"
    by code_simp
  from traceback_without_step [OF h1 h2] h1 h2 show ?thesis
    by blast
qed







section \<open>What each block of the loop body leaves alone\<close>

lemma on_error_frame:
  "current_step (on_error line st) = current_step st \<and>
   step_stack (on_error line st) = step_stack st \<and>
   exit_codes (on_error line st) = exit_codes st"
  by (simp add: on_error_def Let_def active_step_def split: option.splits)

lemma on_exit_code_frame:
  "current_step (on_exit_code line st) = current_step st \<and>
   step_stack (on_exit_code line st) = step_stack st \<and>
   error_messages (on_exit_code line st) = error_messages st"
  by (simp add: on_exit_code_def Let_def active_step_def split: option.splits)

lemma on_test_failure_frame:
  "current_step (on_test_failure line st) = current_step st \<and>
   step_stack (on_test_failure line st) = step_stack st \<and>
   error_messages (on_test_failure line st) = error_messages st \<and>
   exit_codes (on_test_failure line st) = exit_codes st"
  by (simp add: on_test_failure_def active_step_def split: option.splits)

lemma on_traceback_frame:
  assumes "on_traceback lines i line st = Inr st'"
  shows "current_step st' = current_step st \<and> step_stack st' = step_stack st \<and>
         exit_codes st' = exit_codes st"
  using assms
  by (auto simp: on_traceback_def Let_def active_step_def split: if_splits sum.splits option.splits)

lemma active_step_cong:
  "current_step st' = current_step st \<Longrightarrow> active_step st' = active_step st"
  by (simp add: active_step_def)

lemma on_error_no_step:
  "active_step st = None \<Longrightarrow> failed_steps (on_error line st) = failed_steps st"
  by (simp add: on_error_def Let_def active_step_def split: option.splits if_splits)

lemma on_exit_code_no_step:
  "active_step st = None \<Longrightarrow> failed_steps (on_exit_code line st) = failed_steps st"
  by (simp add: on_exit_code_def Let_def active_step_def split: option.splits if_splits)

lemma on_test_failure_no_step:
  "active_step st = None \<Longrightarrow> on_test_failure line st = st"
  by (simp add: on_test_failure_def)

lemma on_traceback_no_step:
  assumes "active_step st = None" and "on_traceback lines i line st = Inr st'"
  shows "failed_steps st' = failed_steps st"
proof -
  have a: "active_step (st\<lparr>error_messages := ems\<rparr>) = None" for ems
    using assms(1) by (simp add: active_step_def)
  from assms show ?thesis
    by (auto simp: on_traceback_def Let_def a split: if_splits sum.splits)
qed

lemma on_group_frame:
  "failed_steps (on_group line st) = failed_steps st \<and>
   error_messages (on_group line st) = error_messages st \<and>
   exit_codes (on_group line st) = exit_codes st"
  by (simp add: on_group_def Let_def split: option.splits)

lemma on_command_frame:
  "failed_steps (on_command line st) = failed_steps st \<and>
   error_messages (on_command line st) = error_messages st \<and>
   exit_codes (on_command line st) = exit_codes st \<and>
   step_stack (on_command line st) = step_stack st"
  by (simp add: on_command_def Let_def split: option.splits)

lemma on_endgroup_frame:
  assumes "on_endgroup line st = Inr st'"
  shows "failed_steps st' = failed_steps st \<and> error_messages st' = error_messages st \<and>
         exit_codes st' = exit_codes st"
  using assms by (auto simp: on_endgroup_Inr split: if_splits)

section \<open>Error markers and the errors of a step\<close>

text \<open>
  Claim C1. The errors of a step are meant to hold no text twice; the traceback block
  and the test-failure block test membership before they append. The error-marker
  block (lines 388-392) appends without that test: for a group \<open>Build\<close> with the line
  \<open>##[error]X\<close> twice, the step \<open>Build\<close> ends with the errors \<open>X, X\<close>.
\<close>

theorem error_marker_stores_duplicate:
  "scan_log [''##[group]Build'', ''##[error]X'', ''##[error]X''] =
     Inr \<lparr>current_step = Some ''Build'', step_stack = [''Build''],
          failed_steps = [\<lparr>name = ''Build'', errors = [''X'', ''X'']\<rparr>],
          error_messages = [''X'', ''X''], in_error_section = True,
          error_context = [''X''], exit_codes = []\<rparr>"
  by code_simp

section \<open>Exit codes\<close>

lemma exit_1_line_facts:
  "\<not> contains ''##[group]'' exit_1_line"
  "\<not> contains ''##[endgroup]'' exit_1_line"
  "\<not> contains ''##[command]'' exit_1_line"
  "\<not> contains ''##[error]'' exit_1_line"
  "contains ''Process completed with exit code'' exit_1_line"
  "exit_code_match exit_1_line = Some ''1''"
  "\<not> is_traceback_line exit_1_line"
  "\<not> is_test_failure_line exit_1_line"
  by code_simp+

lemma on_exit_code_1:
  "exit_codes (on_exit_code exit_1_line st) = exit_codes st @ [(''1'', current_step st)] \<and>
   failed_steps (on_exit_code exit_1_line st) =
     (case active_step st of
        None \<Rightarrow> failed_steps st
      | Some n \<Rightarrow> if has_step n (failed_steps st) then failed_steps st
                  else failed_steps st @
                       [\<lparr>name = n, errors = [''Process exited with code 1'']\<rparr>])"
proof -
  have a: "active_step (st\<lparr>exit_codes := ecs\<rparr>) = active_step st" for ecs
    by (simp add: active_step_def)
  show ?thesis
    by (simp add: on_exit_code_def exit_1_line_facts Let_def a split: option.splits)
qed

text \<open>
  Claim C2, as the program has it. Anywhere in a log and in any state, the line
  \<open>Process completed with exit code 1\<close> appends the record \<open>("1", current_step)\<close>
  to \<open>exit_codes\<close>. With no current step the failed steps stay as they are (the
  block is guarded by \<open>if current_step:\<close>); with a current step that has no entry
  yet, the entry with the one error \<open>Process exited with code 1\<close> is appended; with
  a current step that has an entry, the failed steps stay as they are.
\<close>

theorem exit_code_1_line:
  "\<exists>st'. step_line lines i ''Process completed with exit code 1'' st = Inr st' \<and>
      exit_codes st' = exit_codes st @ [(''1'', current_step st)] \<and>
      (active_step st = None \<longrightarrow> failed_steps st' = failed_steps st) \<and>
      (\<forall>n. active_step st = Some n \<and> has_step n (failed_steps st) \<longrightarrow>
           failed_steps st' = failed_steps st) \<and>
      (\<forall>n. active_step st = Some n \<and> \<not> has_step n (failed_steps st) \<longrightarrow>
           failed_steps st' = failed_steps st @
             [\<lparr>name = n, errors = [''Process exited with code 1'']\<rparr>])"
proof -
  let ?l = exit_1_line
  let ?e = "on_error ?l st"
  have g: "on_group ?l st = st"
    by (simp add: on_group_def exit_1_line_facts)
  have eg: "on_endgroup ?l st = Inr st"
    by (simp add: on_endgroup_def exit_1_line_facts)
  have c: "on_command ?l st = st"
    by (simp add: on_command_def exit_1_line_facts)
  have tb: "on_traceback lines i ?l s = Inr s" for s
    by (simp add: on_traceback_def exit_1_line_facts)
  have tf: "on_test_failure ?l s = s" for s
    by (simp add: on_test_failure_def exit_1_line_facts)
  have s: "step_line lines i ?l st = Inr (on_exit_code ?l ?e)"
    by (simp add: step_line_def g eg c tb tf)
  have e_fs: "failed_steps ?e = failed_steps st"
    by (simp add: on_error_def exit_1_line_facts Let_def)
  have e_cs: "current_step ?e = current_step st" and e_ec: "exit_codes ?e = exit_codes st"
    using on_error_frame [of ?l st] by simp_all
  have e_as: "active_step ?e = active_step st"
    by (rule active_step_cong) (rule e_cs)
  have "exit_codes (on_exit_code ?l ?e) = exit_codes st @ [(''1'', current_step st)]"
    using on_exit_code_1 [of ?e] unfolding e_cs e_ec by simp
  moreover have "failed_steps (on_exit_code ?l ?e) =
     (case active_step st of
        None \<Rightarrow> failed_steps st
      | Some n \<Rightarrow> if has_step n (failed_steps st) then failed_steps st
                  else failed_steps st @
                       [\<lparr>name = n, errors = [''Process exited with code 1'']\<rparr>])"
    using on_exit_code_1 [of ?e] unfolding e_as e_fs by simp
  ultimately show ?thesis
    unfolding exit_1_line_def [symmetric] s by (auto split: option.splits)
qed

theorem exit_code_1_line_witness:
  "active_step init_state = None \<and>
   (\<exists>st'. step_line [''Process completed with exit code 1''] 0
            ''Process completed with exit code 1'' init_state = Inr st' \<and>
      exit_codes st' = [(''1'', None)] \<and> failed_steps st' = [])"
proof -
  have h: "active_step init_state = None" by code_simp
  obtain st' where
    s: "step_line [''Process completed with exit code 1''] 0
          ''Process completed with exit code 1'' init_state = Inr st'" and
    e: "exit_codes st' = exit_codes init_state @ [(''1'', current_step init_state)]" and
    f: "active_step init_state = None \<longrightarrow> failed_steps st' = failed_steps init_state"
    using exit_code_1_line [of "[''Process completed with exit code 1'']" 0 init_state]
    by (elim exE conjE) simp
  from e have "exit_codes st' = [(''1'', None)]" by (simp add: init_state_def)
  moreover from f h have "failed_steps st' = []" by (simp add: init_state_def)
  ultimately show ?thesis using h s by blast
qed

text \<open>
  The log of the claim: the record \<open>("1", None)\<close> is produced and \<open>failed_steps\<close>
  stays empty.
\<close>

theorem exit_code_without_step_counterexample:
  "scan_log (split_nl ''Process completed with exit code 1'') =
     Inr \<lparr>current_step = None, step_stack = [], failed_steps = [],
          error_messages = [], in_error_section = False, error_context = [],
          exit_codes = [(''1'', None)]\<rparr>"
  by code_simp

section \<open>Closing a group\<close>

lemma on_group_stack_inv:
  "step_stack (on_group line st) = [] \<Longrightarrow> on_group line st = st"
  by (simp add: on_group_def Let_def split: option.splits if_splits)

lemma on_endgroup_stack_inv:
  assumes "on_endgroup line st = Inr st'" and "step_stack st' = []"
  shows "current_step st' = None \<or> (step_stack st = [] \<and> st' = st)"
  using assms by (auto simp: on_endgroup_Inr split: if_splits)

lemma on_command_current:
  "current_step (on_command line st) = current_step st \<or>
   (\<exists>cmd. current_step (on_command line st) = Some (command_step_name cmd))"
  by (auto simp: on_command_def Let_def split: option.splits)

lemma step_line_split:
  assumes "step_line lines i line st = Inr st'"
  shows "\<exists>st2 st6. on_endgroup line (on_group line st) = Inr st2 \<and>
     on_traceback lines i line (on_exit_code line (on_error line (on_command line st2))) = Inr st6 \<and>
     st' = on_test_failure line st6"
proof (cases "on_endgroup line (on_group line st)")
  case (Inl e)
  with assms show ?thesis by (simp add: step_line_def)
next
  case (Inr st2)
  note eg = this
  show ?thesis
  proof (cases "on_traceback lines i line
      (on_exit_code line (on_error line (on_command line st2)))")
    case (Inl e)
    with assms eg show ?thesis by (simp add: step_line_def)
  next
    case (Inr st6)
    with assms eg show ?thesis by (simp add: step_line_def)
  qed
qed

lemma step_line_tracker:
  assumes "step_line lines i line st = Inr st'"
  shows "\<exists>st2. on_endgroup line (on_group line st) = Inr st2 \<and>
     current_step st' = current_step (on_command line st2) \<and>
     step_stack st' = step_stack st2"
proof -
  from step_line_split [OF assms] obtain st2 st6 where
    eg: "on_endgroup line (on_group line st) = Inr st2" and
    tb: "on_traceback lines i line
           (on_exit_code line (on_error line (on_command line st2))) = Inr st6" and
    st': "st' = on_test_failure line st6"
    by (elim exE conjE)
  let ?c = "on_command line st2"
  let ?e = "on_error line ?c"
  let ?x = "on_exit_code line ?e"
  have t: "current_step st' = current_step st6" "step_stack st' = step_stack st6"
    using on_test_failure_frame [of line st6] by (simp_all add: st')
  have b: "current_step st6 = current_step ?x" "step_stack st6 = step_stack ?x"
    using on_traceback_frame [OF tb] by simp_all
  have x: "current_step ?x = current_step ?e" "step_stack ?x = step_stack ?e"
    using on_exit_code_frame [of line ?e] by simp_all
  have e: "current_step ?e = current_step ?c" "step_stack ?e = step_stack ?c"
    using on_error_frame [of line ?c] by simp_all
  have c: "step_stack ?c = step_stack st2"
    using on_command_frame [of line st2] by simp
  have "current_step st' = current_step ?c"
    by (simp only: t b x e)
  moreover have "step_stack st' = step_stack st2"
    by (simp only: t b x e c)
  ultimately show ?thesis using eg by (intro exI conjI)
qed

lemma step_line_stack_inv:
  assumes s: "step_line lines i line st = Inr st'"
    and inv: "step_stack st = [] \<longrightarrow>
        current_step st = None \<or> (\<exists>cmd. current_step st = Some (command_step_name cmd))"
    and e: "step_stack st' = []"
  shows "current_step st' = None \<or> (\<exists>cmd. current_step st' = Some (command_step_name cmd))"
proof -
  from step_line_tracker [OF s] obtain st2 where
    eg: "on_endgroup line (on_group line st) = Inr st2" and
    cs: "current_step st' = current_step (on_command line st2)" and
    ss: "step_stack st' = step_stack st2"
    by (elim exE conjE)
  from ss e have e2: "step_stack st2 = []" by simp
  have i2: "current_step st2 = None \<or>
      (\<exists>cmd. current_step st2 = Some (command_step_name cmd))"
  proof -
    from on_endgroup_stack_inv [OF eg e2]
    show ?thesis
    proof
      assume "current_step st2 = None"
      then show ?thesis by (rule disjI1)
    next
      assume a: "step_stack (on_group line st) = [] \<and> st2 = on_group line st"
      then have g: "on_group line st = st"
        by (intro on_group_stack_inv) (rule conjunct1)
      from a have "st2 = on_group line st" by (rule conjunct2)
      then have st2: "st2 = st" using g by (rule trans)
      from a g have "step_stack st = []" by (simp only:)
      with inv show ?thesis unfolding st2 by (rule mp)
    qed
  qed
  from on_command_current [of line st2]
  show ?thesis
  proof
    assume "current_step (on_command line st2) = current_step st2"
    with cs i2 show ?thesis by simp
  next
    assume "\<exists>cmd. current_step (on_command line st2) = Some (command_step_name cmd)"
    with cs show ?thesis by simp
  qed
qed

lemma run_lines_stack_inv:
  assumes "run_lines lines ils st = Inr st'"
    and "step_stack st = [] \<longrightarrow>
        current_step st = None \<or> (\<exists>cmd. current_step st = Some (command_step_name cmd))"
  shows "step_stack st' = [] \<longrightarrow>
        current_step st' = None \<or> (\<exists>cmd. current_step st' = Some (command_step_name cmd))"
  using assms
proof (induction ils arbitrary: st)
  case Nil
  then show ?case by simp
next
  case (Cons il ils)
  obtain i line where il: "il = (i, line)" by (cases il)
  from Cons.prems(1) obtain st1 where
    s1: "step_line lines i line st = Inr st1" and r: "run_lines lines ils st1 = Inr st'"
    by (cases "step_line lines i line st") (simp_all add: il)
  have "step_stack st1 = [] \<longrightarrow>
        current_step st1 = None \<or> (\<exists>cmd. current_step st1 = Some (command_step_name cmd))"
    using step_line_stack_inv [OF s1 Cons.prems(2)] by blast
  from Cons.IH [OF r this] show ?case .
qed

text \<open>
  Claim C4, as the program has it. A group-close line met with an empty stack changes
  nothing at all: neither the stack nor the current step, which stays absent if it was
  absent and stays the step \<open>Command: ...\<close> if a command line had set one. With a
  stack that is not empty, the top is popped and the current step becomes the new top,
  or absent. In every state the scan reaches, an empty stack goes with a current step
  that is absent or such a command step.
\<close>

theorem endgroup_on_empty_stack:
  "(step_stack st = [] \<longrightarrow> on_endgroup line st = Inr st) \<and>
   (contains ''##[endgroup]'' line \<and> step_stack st \<noteq> [] \<longrightarrow>
      on_endgroup line st =
        Inr (st\<lparr>step_stack := butlast (step_stack st),
                current_step := (if butlast (step_stack st) = [] then None
                                 else Some (last (butlast (step_stack st))))\<rparr>)) \<and>
   (\<forall>st'. run_lines lines ils init_state = Inr st' \<and> step_stack st' = [] \<longrightarrow>
      current_step st' = None \<or> (\<exists>cmd. current_step st' = Some (command_step_name cmd)))"
proof -
  have a: "step_stack st = [] \<longrightarrow> on_endgroup line st = Inr st"
    by (simp add: on_endgroup_Inr)
  have b: "contains ''##[endgroup]'' line \<and> step_stack st \<noteq> [] \<longrightarrow>
      on_endgroup line st =
        Inr (st\<lparr>step_stack := butlast (step_stack st),
                current_step := (if butlast (step_stack st) = [] then None
                                 else Some (last (butlast (step_stack st))))\<rparr>)"
    by (simp add: on_endgroup_Inr)
  have i0: "step_stack init_state = [] \<longrightarrow>
      current_step init_state = None \<or>
      (\<exists>cmd. current_step init_state = Some (command_step_name cmd))"
    by (simp add: init_state_def)
  have c: "\<forall>st'. run_lines lines ils init_state = Inr st' \<and> step_stack st' = [] \<longrightarrow>
      current_step st' = None \<or> (\<exists>cmd. current_step st' = Some (command_step_name cmd))"
    using run_lines_stack_inv [OF _ i0] by blast
  from a b c show ?thesis by blast
qed

theorem endgroup_on_empty_stack_witness:
  "on_endgroup ''##[endgroup]'' init_state = Inr init_state \<and>
   on_endgroup ''##[endgroup]'' (init_state\<lparr>step_stack := [''Build''], current_step := Some ''Build''\<rparr>) =
     Inr (init_state\<lparr>step_stack := [], current_step := None\<rparr>) \<and>
   (\<exists>st'. run_lines [''##[command]make'', ''##[endgroup]'']
            (enumerate 0 [''##[command]make'', ''##[endgroup]'']) init_state = Inr st' \<and>
          step_stack st' = [] \<and> current_step st' = Some (command_step_name ''make''))"
proof -
  let ?st = "init_state\<lparr>step_stack := [''Build''], current_step := Some ''Build''\<rparr>"
  let ?lines = "[''##[command]make'', ''##[endgroup]'']"
  have h1: "step_stack init_state = []" by (simp add: init_state_def)
  have h2: "contains ''##[endgroup]'' ''##[endgroup]'' \<and> step_stack ?st \<noteq> []"
    by code_simp
  have r: "run_lines ?lines (enumerate 0 ?lines) init_state =
      Inr (init_state\<lparr>current_step := Some (command_step_name ''make'')\<rparr>)"
    by code_simp
  have a: "on_endgroup ''##[endgroup]'' init_state = Inr init_state"
    by (rule endgroup_on_empty_stack [of init_state, THEN conjunct1, THEN mp, OF h1])
  have "on_endgroup ''##[endgroup]'' ?st =
      Inr (?st\<lparr>step_stack := butlast (step_stack ?st),
               current_step := (if butlast (step_stack ?st) = [] then None
                                else Some (last (butlast (step_stack ?st))))\<rparr>)"
    by (rule endgroup_on_empty_stack [of ?st, THEN conjunct2, THEN conjunct1, THEN mp, OF h2])
  then have b: "on_endgroup ''##[endgroup]'' ?st =
      Inr (init_state\<lparr>step_stack := [], current_step := None\<rparr>)"
    by (simp add: init_state_def)
  have c: "\<exists>st'. run_lines ?lines (enumerate 0 ?lines) init_state = Inr st' \<and>
          step_stack st' = [] \<and> current_step st' = Some (command_step_name ''make'')"
    using r by (simp add: init_state_def)
  show ?thesis by (rule conjI [OF a conjI [OF b c]])
qed

text \<open>
  After a command line, a group-close line on the empty stack leaves the command step
  current.
\<close>

theorem endgroup_keeps_command_step_counterexample:
  "scan_log [''##[command]make'', ''##[endgroup]''] =
     Inr \<lparr>current_step = Some ''Command: make'', step_stack = [], failed_steps = [],
          error_messages = [], in_error_section = False, error_context = [],
          exit_codes = []\<rparr>"
  by code_simp

section \<open>The fallback lines\<close>

lemma fallback_fixed:
  "fallback_line \<notin> set header_lines" "fallback_line \<notin> set trailer_lines"
  "fallback_line \<noteq> dashes" "fallback_line \<noteq> []"
  by code_simp+

lemma indented_not_fallback: "''  '' @ x \<noteq> fallback_line"
  by (simp add: fallback_line_def)

lemma render_step_not_fallback:
  assumes "render_step step = Inr ls"
  shows "fallback_line \<notin> set ls"
proof -
  have a: "''    Error: '' @ x = ''  '' @ (''  Error: '' @ x)" for x by simp
  have b: "''    ('' @ x = ''  '' @ (''  ('' @ x)" for x by simp
  from assms show ?thesis
    unfolding render_step_def Let_def a b
    by (auto simp: py_index_def indented_not_fallback [symmetric] simp del: append.simps
        split: if_splits)
qed

lemma render_steps_not_fallback:
  "render_steps fs = Inr ls \<Longrightarrow> fallback_line \<notin> set ls"
proof (induction fs arbitrary: ls)
  case Nil
  then show ?case by simp
next
  case (Cons step fs)
  from Cons.prems obtain a b where
    a: "render_step step = Inr a" and b: "render_steps fs = Inr b" and ls: "ls = a @ b"
    by (auto split: sum.splits)
  from render_step_not_fallback [OF a] Cons.IH [OF b] ls show ?case by simp
qed

lemma failed_section_not_fallback:
  assumes "failed_section fs = Inr ls"
  shows "fallback_line \<notin> set ls"
proof (cases "fs = []")
  case True
  with assms show ?thesis by (simp add: failed_section_def)
next
  case False
  with assms obtain a where a: "render_steps fs = Inr a"
    and ls: "ls = [''FAILED STEPS:'', dashes] @ a @ [[]]"
    by (auto simp: failed_section_def split: sum.splits)
  have "fallback_line \<noteq> ''FAILED STEPS:''" by code_simp
  with render_steps_not_fallback [OF a] fallback_fixed(3,4) show ?thesis
    by (simp add: ls)
qed

lemma key_section_not_fallback: "fallback_line \<notin> set (key_section ems)"
proof -
  have "fallback_line \<noteq> ''KEY ERROR MESSAGES:''" by code_simp
  with fallback_fixed(3,4) show ?thesis
    by (auto simp: key_section_def indented_not_fallback [symmetric] simp del: append.simps)
qed

lemma patterns_section_not_fallback: "fallback_line \<notin> set (patterns_section dps)"
proof -
  have "fallback_line \<noteq> ''DETECTED ISSUE TYPES:''" by code_simp
  with fallback_fixed(3,4) show ?thesis
    by (auto simp: patterns_section_def indented_not_fallback [symmetric]
        simp del: append.simps)
qed

lemma exit_section_not_fallback: "fallback_line \<notin> set (exit_section ecs)"
proof -
  have "fallback_line \<noteq> ''NON-ZERO EXIT CODES:''" by code_simp
  with fallback_fixed(3,4) show ?thesis
    by (auto simp: exit_section_def Let_def indented_not_fallback [symmetric]
        simp del: append.simps)
qed

lemma fallback_section_iff:
  "fallback_line \<in> set (fallback_section fs ems ecs) \<longleftrightarrow> fs = [] \<and> ems = [] \<and> ecs = []"
  by (simp add: fallback_section_def)

lemma summary_lines_fallback:
  "\<exists>ls. summary_lines fs ems dps ecs = Inr ls \<and>
     (fallback_line \<in> set ls \<longleftrightarrow> fs = [] \<and> ems = [] \<and> ecs = [])"
proof -
  obtain a where a: "failed_section fs = Inr a" using failed_section_total by blast
  have s: "summary_lines fs ems dps ecs =
      Inr (header_lines @ a @ key_section ems @ patterns_section dps @
           exit_section ecs @ fallback_section fs ems ecs @ trailer_lines)"
    by (simp add: summary_lines_def a)
  show ?thesis
    unfolding s
    using failed_section_not_fallback [OF a] fallback_fixed(1,2)
      key_section_not_fallback [of ems] patterns_section_not_fallback [of dps]
      exit_section_not_fallback [of ecs] fallback_section_iff [of fs ems ecs]
    by simp
qed

lemma active_step_quiet: "quiet st \<Longrightarrow> active_step st = None"
  by (simp add: quiet_def active_step_def)

lemma on_error_quiet:
  assumes "\<not> contains ''##[error]'' line" and "quiet st"
  shows "quiet (on_error line st)"
  using assms by (simp add: on_error_def quiet_def Let_def)

lemma step_line_quiet:
  assumes g: "\<not> contains ''##[group]'' line"
    and c: "\<not> contains ''##[command]'' line"
    and e: "\<not> contains ''##[error]'' line"
    and x: "\<not> contains ''Process completed with exit code'' line"
    and t: "\<not> is_traceback_line line"
    and q: "quiet st"
  shows "\<exists>st'. step_line lines i line st = Inr st' \<and> quiet st'"
proof -
  have 1: "on_group line st = st" using g by (simp add: on_group_def)
  have 2: "on_endgroup line st = Inr st" using q by (simp add: on_endgroup_Inr quiet_def)
  have 3: "on_command line st = st" using c by (simp add: on_command_def)
  have 4: "on_exit_code line s = s" for s using x by (simp add: on_exit_code_def)
  have 5: "on_traceback lines i line s = Inr s" for s using t by (simp add: on_traceback_def)
  have qe: "quiet (on_error line st)" using e q by (rule on_error_quiet)
  have 6: "on_test_failure line (on_error line st) = on_error line st"
    using active_step_quiet [OF qe] by (rule on_test_failure_no_step)
  have "step_line lines i line st = Inr (on_error line st)"
    by (simp add: step_line_def 1 2 3 4 5 6)
  with qe show ?thesis by simp
qed

lemma run_lines_quiet:
  assumes "\<forall>l \<in> set (map snd ils).
      \<not> contains ''##[group]'' l \<and> \<not> contains ''##[command]'' l \<and>
      \<not> contains ''##[error]'' l \<and> \<not> contains ''Process completed with exit code'' l \<and>
      \<not> is_traceback_line l"
    and "quiet st"
  shows "\<exists>st'. run_lines lines ils st = Inr st' \<and> quiet st'"
  using assms
proof (induction ils arbitrary: st)
  case Nil
  then show ?case by simp
next
  case (Cons il ils)
  obtain i line where il: "il = (i, line)" by (cases il)
  from Cons.prems(1) have l: "\<not> contains ''##[group]'' line" "\<not> contains ''##[command]'' line"
      "\<not> contains ''##[error]'' line" "\<not> contains ''Process completed with exit code'' line"
      "\<not> is_traceback_line line"
    by (simp_all add: il)
  from step_line_quiet [where lines = lines and i = i, OF l Cons.prems(2)] obtain st1 where
    s1: "step_line lines i line st = Inr st1" and q1: "quiet st1"
    by (elim exE conjE)
  from Cons.prems(1) have rest: "\<forall>l \<in> set (map snd ils).
      \<not> contains ''##[group]'' l \<and> \<not> contains ''##[command]'' l \<and>
      \<not> contains ''##[error]'' l \<and> \<not> contains ''Process completed with exit code'' l \<and>
      \<not> is_traceback_line l"
    by simp
  from Cons.IH [OF rest q1] show ?case by (simp add: il s1)
qed

lemma summary_lines_nothing:
  "summary_lines [] [] [] [] =
     Inr (header_lines @ [fallback_line, ''Check the full log below for details.'', []] @
          trailer_lines)"
  by (simp add: summary_lines_def failed_section_def key_section_def patterns_section_def
      exit_section_def fallback_section_def)

lemma analyze_lines_quiet:
  assumes "\<forall>l \<in> set (split_nl logs).
      \<not> contains ''##[group]'' l \<and> \<not> contains ''##[command]'' l \<and>
      \<not> contains ''##[error]'' l \<and> \<not> contains ''Process completed with exit code'' l \<and>
      \<not> is_traceback_line l"
    and "detect_patterns logs = []"
  shows "analyze_lines logs =
     Inr (header_lines @ [fallback_line, ''Check the full log below for details.'', []] @
          trailer_lines)"
proof -
  have m: "map snd (enumerate 0 (split_nl logs)) = split_nl logs" by simp
  have q0: "quiet init_state" by (simp add: quiet_def init_state_def)
  from assms(1) have "\<forall>l \<in> set (map snd (enumerate 0 (split_nl logs))).
      \<not> contains ''##[group]'' l \<and> \<not> contains ''##[command]'' l \<and>
      \<not> contains ''##[error]'' l \<and> \<not> contains ''Process completed with exit code'' l \<and>
      \<not> is_traceback_line l"
    unfolding m .
  from run_lines_quiet [where lines = "split_nl logs", OF this q0] obtain st where
    s: "scan_log (split_nl logs) = Inr st" and q: "quiet st"
    unfolding scan_log_def by (elim exE conjE)
  from q have "failed_steps st = []" "error_messages st = []" "exit_codes st = []"
    by (simp_all add: quiet_def)
  then show ?thesis
    by (simp add: analyze_lines_def s assms(2) summary_lines_nothing)
qed

text \<open>
  Claim C3, as the program has it. The fallback line is among the lines of the summary
  exactly when the failed steps, the error messages and the exit-code records are all
  empty; the detected patterns are not asked, and a record of exit code 0 counts. For a
  log in which no line holds a group-open, command or error marker, the exit-code
  phrase or a traceback, and on which no pattern of the table matches, the summary is
  the header, the fallback lines and the trailer, and nothing else.
\<close>

theorem fallback_exactly_when_no_findings:
  "(\<exists>ls. summary_lines fs ems dps ecs = Inr ls \<and>
      (fallback_line \<in> set ls \<longleftrightarrow> fs = [] \<and> ems = [] \<and> ecs = [])) \<and>
   ((\<forall>l \<in> set (split_nl logs).
        \<not> contains ''##[group]'' l \<and> \<not> contains ''##[command]'' l \<and>
        \<not> contains ''##[error]'' l \<and> \<not> contains ''Process completed with exit code'' l \<and>
        \<not> is_traceback_line l) \<and>
    detect_patterns logs = [] \<longrightarrow>
    analyze_log_errors logs =
      Inr (join_nl (header_lines @
                    [fallback_line, ''Check the full log below for details.'', []] @
                    trailer_lines)))"
proof (intro conjI impI)
  show "\<exists>ls. summary_lines fs ems dps ecs = Inr ls \<and>
      (fallback_line \<in> set ls \<longleftrightarrow> fs = [] \<and> ems = [] \<and> ecs = [])"
    by (rule summary_lines_fallback)
next
  assume a: "(\<forall>l \<in> set (split_nl logs).
        \<not> contains ''##[group]'' l \<and> \<not> contains ''##[command]'' l \<and>
        \<not> contains ''##[error]'' l \<and> \<not> contains ''Process completed with exit code'' l \<and>
        \<not> is_traceback_line l) \<and>
    detect_patterns logs = []"
  from analyze_lines_quiet [OF a [THEN conjunct1] a [THEN conjunct2]]
  show "analyze_log_errors logs =
      Inr (join_nl (header_lines @
                    [fallback_line, ''Check the full log below for details.'', []] @
                    trailer_lines))"
    by (simp add: analyze_log_errors_def)
qed

theorem fallback_exactly_when_no_findings_witness:
  "analyze_log_errors ''build ok'' =
      Inr (join_nl (header_lines @
                    [fallback_line, ''Check the full log below for details.'', []] @
                    trailer_lines)) \<and>
   (\<exists>ls. summary_lines [] [] [''Import error detected''] [] = Inr ls \<and>
      fallback_line \<in> set ls)"
proof -
  have h: "(\<forall>l \<in> set (split_nl ''build ok'').
        \<not> contains ''##[group]'' l \<and> \<not> contains ''##[command]'' l \<and>
        \<not> contains ''##[error]'' l \<and> \<not> contains ''Process completed with exit code'' l \<and>
        \<not> is_traceback_line l) \<and>
    detect_patterns ''build ok'' = []"
    by code_simp
  note t = fallback_exactly_when_no_findings
    [of "[]" "[]" "[''Import error detected'']" "[]" "''build ok''"]
  have a: "analyze_log_errors ''build ok'' =
      Inr (join_nl (header_lines @
                    [fallback_line, ''Check the full log below for details.'', []] @
                    trailer_lines))"
    by (rule t [THEN conjunct2, THEN mp, OF h])
  from t [THEN conjunct1] obtain ls where
    "summary_lines [] [] [''Import error detected''] [] = Inr ls"
    "fallback_line \<in> set ls \<longleftrightarrow> [] = ([]::failed_step list) \<and> [] = ([]::string list) \<and>
       [] = ([]::(string \<times> string option) list)"
    by (elim exE conjE)
  then have b: "\<exists>ls. summary_lines [] [] [''Import error detected''] [] = Inr ls \<and>
      fallback_line \<in> set ls"
    by simp
  show ?thesis by (rule conjI [OF a b])
qed

text \<open>
  The log \<open>ImportError\<close> gets the section of detected issue types and the fallback
  lines as well; the log \<open>Process completed with exit code 0\<close> gets no section and
  no fallback lines.
\<close>

theorem fallback_with_detected_patterns_counterexample:
  "analyze_lines ''ImportError'' =
     Inr (header_lines @
          [''DETECTED ISSUE TYPES:'', dashes, ''  '' @ bullet @ '' Import error detected'', [],
           fallback_line, ''Check the full log below for details.'', []] @
          trailer_lines) \<and>
   analyze_lines ''Process completed with exit code 0'' = Inr (header_lines @ trailer_lines)"
  by code_simp

section \<open>Length caps\<close>

lemma update_first_set:
  "s \<in> set (update_first n f fs) \<Longrightarrow> s \<in> set fs \<or> (\<exists>s0 \<in> set fs. s = f s0)"
  by (induction fs) (auto split: if_splits)

lemma error_preview_length: "length (error_preview e) \<le> 250"
  by (simp add: error_preview_def)

lemma error_clean_length:
  "length (error_clean e) \<le> 300 + 3 \<and> (length e \<le> 300 \<longrightarrow> length (error_clean e) \<le> 300)"
  by (simp add: error_clean_def min_le_iff_disj)

lemma render_step_error_line:
  assumes "render_step step = Inr ls" and "l \<in> set ls" and "startswith ''    Error: '' l"
  shows "length l \<le> 11 + 250"
  using assms
  by (auto simp: render_step_def Let_def py_index_def startswith_def bullet_def
      error_preview_length split: if_splits)

lemma str_nat_digit: "n < 10 \<Longrightarrow> length (str_nat n) = 1"
  by (simp add: str_nat.simps)

lemma key_section_line_length:
  assumes "l \<in> set (key_section ems)"
  shows "length l \<le> 5 + 303"
proof (cases "ems = []")
  case True
  with assms show ?thesis by (simp add: key_section_def)
next
  case False
  have d: "length dashes = 80" by (simp add: dashes_def)
  from assms False consider "l = ''KEY ERROR MESSAGES:''" | "l = dashes" | "l = []"
    | i e where "(i, e) \<in> set (enumerate 1 (take 5 ems))"
        and "l = ''  '' @ str_nat i @ ''. '' @ error_clean e"
    by (auto simp: key_section_def)
  then show ?thesis
  proof cases
    case 1
    then show ?thesis by simp
  next
    case 2
    then show ?thesis by (simp add: d)
  next
    case 3
    then show ?thesis by simp
  next
    case 4
    from 4(1) have "i < 10" by (auto simp: in_set_enumerate_eq)
    then have "length (str_nat i) = 1" by (rule str_nat_digit)
    with error_clean_length [of e] 4(2) show ?thesis by simp
  qed
qed

lemma on_test_failure_errors:
  assumes "s \<in> set (failed_steps (on_test_failure line st))" and "x \<in> set (errors s)"
  shows "length x \<le> 200 \<or> (\<exists>s0 \<in> set (failed_steps st). x \<in> set (errors s0))"
proof (cases "is_test_failure_line line")
  case False
  with assms show ?thesis by (auto simp: on_test_failure_def)
next
  case True
  show ?thesis
  proof (cases "active_step st")
    case None
    then have "on_test_failure line st = st" by (rule on_test_failure_no_step)
    with assms show ?thesis by auto
  next
    case (Some n)
    show ?thesis
    proof (cases "has_step n (failed_steps st)")
      case False
      with assms True Some show ?thesis by (auto simp: on_test_failure_def)
    next
      case h: True
      let ?f = "\<lambda>step. if strip line \<notin> set (errors step)
                       then step\<lparr>errors := errors step @ [take 200 (strip line)]\<rparr>
                       else step"
      from assms(1) True Some h have "s \<in> set (update_first n ?f (failed_steps st))"
        by (simp add: on_test_failure_def)
      from update_first_set [OF this] assms(2) show ?thesis
        by (auto split: if_splits)
    qed
  qed
qed

lemma on_command_name:
  "current_step (on_command line st) = current_step st \<or>
   (\<exists>cmd. current_step (on_command line st) = Some (''Command: '' @ cmd) \<and> length cmd \<le> 50)"
  by (auto simp: on_command_def Let_def command_step_name_def split: option.splits)

lemma on_traceback_errors:
  assumes r: "on_traceback lines i line st = Inr st'"
    and s: "s \<in> set (failed_steps st')" and x: "x \<in> set (errors s)"
  shows "length x \<le> 1000 \<or> (\<exists>s0 \<in> set (failed_steps st). x \<in> set (errors s0))"
proof (cases "is_traceback_line line")
  case False
  with r s x show ?thesis by (auto simp: on_traceback_def)
next
  case True
  obtain ext where c: "tb_capture lines i line = Inr (line # ext)"
    using tb_capture_starts by blast
  let ?txt = "join_nl (take 30 (line # ext))"
  let ?f = "\<lambda>step. let tb_preview = take 1000 ?txt
                   in if tb_preview \<notin> set (errors step)
                      then step\<lparr>errors := errors step @ [tb_preview]\<rparr> else step"
  have am: "active_step (u\<lparr>error_messages := ems\<rparr>) = active_step u" for u ems
    by (simp add: active_step_def)
  have af: "active_step (u\<lparr>failed_steps := fs\<rparr>) = active_step u" for u fs
    by (simp add: active_step_def)
  show ?thesis
  proof (cases "active_step st")
    case None
    with r True c have "failed_steps st' = failed_steps st"
      by (auto simp: on_traceback_def Let_def am)
    with s x show ?thesis by auto
  next
    case (Some n)
    define fs1 where "fs1 = (if has_step n (failed_steps st) then failed_steps st
        else failed_steps st @ [\<lparr>name = n, errors = []\<rparr>])"
    from r True c Some have "failed_steps st' = update_first n ?f fs1"
      by (auto simp: on_traceback_def Let_def am af fs1_def)
    with s have "s \<in> set (update_first n ?f fs1)" by simp
    from update_first_set [OF this]
    have d: "s \<in> set fs1 \<or> (\<exists>s0 \<in> set fs1. s = ?f s0)" .
    have old: "\<And>s0 y. s0 \<in> set fs1 \<Longrightarrow> y \<in> set (errors s0) \<Longrightarrow>
        \<exists>s1 \<in> set (failed_steps st). y \<in> set (errors s1)"
      by (auto simp: fs1_def split: if_splits)
    from d show ?thesis
    proof
      assume "s \<in> set fs1"
      from old [OF this x] show ?thesis by (rule disjI2)
    next
      assume "\<exists>s0 \<in> set fs1. s = ?f s0"
      then obtain s0 where s0: "s0 \<in> set fs1" and e: "s = ?f s0" by (elim bexE)
      from e x have "x \<in> set (errors s0) \<or> x = take 1000 ?txt"
        by (auto simp: Let_def split: if_splits)
      then show ?thesis
      proof
        assume "x \<in> set (errors s0)"
        from old [OF s0 this] show ?thesis by (rule disjI2)
      next
        assume "x = take 1000 ?txt"
        then have "length x \<le> 1000" by simp
        then show ?thesis by (rule disjI1)
      qed
    qed
  qed
qed

text \<open>
  Claim C6, as the program has it. The first-error preview of a failed step has at most
  250 characters (its line at most 11 more). The preview of a key error message has at
  most 300 characters of the message and, when the message is longer than 300
  characters, the three dots after them: 303 at most, and at most 300 for a message of
  at most 300 characters; its line has at most 5 more. A text the test-failure block
  adds to a step has at most 200 characters, the command text in a synthetic step name
  at most 50, and a text the traceback block adds to a step at most 1000.
\<close>

theorem preview_caps:
  "(\<forall>ls l. render_step step = Inr ls \<and> l \<in> set ls \<and> startswith ''    Error: '' l \<longrightarrow>
      length l \<le> 11 + 250) \<and>
   length (error_preview e) \<le> 250 \<and>
   length (error_clean e) \<le> 300 + 3 \<and>
   (length e \<le> 300 \<longrightarrow> length (error_clean e) \<le> 300) \<and>
   (\<forall>l \<in> set (key_section ems). length l \<le> 5 + 303) \<and>
   (\<forall>s \<in> set (failed_steps (on_test_failure tline tst)). \<forall>x \<in> set (errors s).
      length x \<le> 200 \<or> (\<exists>s0 \<in> set (failed_steps tst). x \<in> set (errors s0))) \<and>
   (current_step (on_command cline cst) = current_step cst \<or>
    (\<exists>cmd. current_step (on_command cline cst) = Some (''Command: '' @ cmd) \<and>
           length cmd \<le> 50)) \<and>
   (\<forall>st'. on_traceback lines i bline bst = Inr st' \<longrightarrow>
      (\<forall>s \<in> set (failed_steps st'). \<forall>x \<in> set (errors s).
         length x \<le> 1000 \<or> (\<exists>s0 \<in> set (failed_steps bst). x \<in> set (errors s0))))"
proof (intro conjI allI impI ballI)
  fix ls l
  assume "render_step step = Inr ls \<and> l \<in> set ls \<and> startswith ''    Error: '' l"
  then show "length l \<le> 11 + 250"
    using render_step_error_line [of step ls l] by simp
next
  show "length (error_preview e) \<le> 250" by (rule error_preview_length)
next
  show "length (error_clean e) \<le> 300 + 3"
    using error_clean_length [of e] by (rule conjunct1)
next
  assume "length e \<le> 300"
  with error_clean_length [of e] show "length (error_clean e) \<le> 300" by simp
next
  fix l assume "l \<in> set (key_section ems)"
  then show "length l \<le> 5 + 303" by (rule key_section_line_length)
next
  fix s x
  assume "s \<in> set (failed_steps (on_test_failure tline tst))" and "x \<in> set (errors s)"
  then show "length x \<le> 200 \<or> (\<exists>s0 \<in> set (failed_steps tst). x \<in> set (errors s0))"
    by (rule on_test_failure_errors)
next
  show "current_step (on_command cline cst) = current_step cst \<or>
    (\<exists>cmd. current_step (on_command cline cst) = Some (''Command: '' @ cmd) \<and>
           length cmd \<le> 50)"
    by (rule on_command_name)
next
  fix st' s x
  assume "on_traceback lines i bline bst = Inr st'" and "s \<in> set (failed_steps st')"
    and "x \<in> set (errors s)"
  then show "length x \<le> 1000 \<or> (\<exists>s0 \<in> set (failed_steps bst). x \<in> set (errors s0))"
    by (rule on_traceback_errors)
qed

theorem preview_caps_witness:
  "render_step \<lparr>name = ''Build'', errors = [''boom'']\<rparr> =
     Inr [''  '' @ bullet @ '' Build'', ''    Error: boom''] \<and>
   length ''    Error: boom'' \<le> 11 + 250 \<and>
   length (error_clean ''boom'') \<le> 300 \<and>
   ''  1. boom'' \<in> set (key_section [''boom'']) \<and>
   length ''  1. boom'' \<le> 5 + 303 \<and>
   failed_steps (on_test_failure ''FAILED test_x'' (init_state\<lparr>current_step := Some ''Build''\<rparr>)) =
     [\<lparr>name = ''Build'', errors = [''FAILED test_x'']\<rparr>] \<and>
   (length ''FAILED test_x'' \<le> 200 \<or>
    (\<exists>s0 \<in> set (failed_steps (init_state\<lparr>current_step := Some ''Build''\<rparr>)).
       ''FAILED test_x'' \<in> set (errors s0))) \<and>
   on_traceback [''Traceback''] 0 ''Traceback'' (init_state\<lparr>current_step := Some ''Build''\<rparr>) =
     Inr (init_state\<lparr>current_step := Some ''Build'',
            failed_steps := [\<lparr>name = ''Build'', errors = [''Traceback'']\<rparr>],
            error_messages := [''Traceback'']\<rparr>) \<and>
   (length ''Traceback'' \<le> 1000 \<or>
    (\<exists>s0 \<in> set (failed_steps (init_state\<lparr>current_step := Some ''Build''\<rparr>)).
       ''Traceback'' \<in> set (errors s0)))"
proof -
  let ?step = "\<lparr>name = ''Build'', errors = [''boom'']\<rparr>"
  let ?st = "init_state\<lparr>current_step := Some ''Build''\<rparr>"
  let ?ts = "\<lparr>name = ''Build'', errors = [''FAILED test_x'']\<rparr>"
  let ?bs = "\<lparr>name = ''Build'', errors = [''Traceback'']\<rparr>"
  let ?st' = "init_state\<lparr>current_step := Some ''Build'', failed_steps := [?bs],
                error_messages := [''Traceback'']\<rparr>"
  note t = preview_caps [where step = ?step and e = "''boom''" and ems = "[''boom'']"
      and tline = "''FAILED test_x''" and tst = ?st
      and cline = "''##[command]make''" and cst = init_state
      and lines = "[''Traceback'']" and i = 0 and bline = "''Traceback''" and bst = ?st]
  note t1 = t [THEN conjunct1]
  note t4 = t [THEN conjunct2, THEN conjunct2, THEN conjunct2, THEN conjunct1]
  note t5 = t [THEN conjunct2, THEN conjunct2, THEN conjunct2, THEN conjunct2, THEN conjunct1]
  note t6 = t [THEN conjunct2, THEN conjunct2, THEN conjunct2, THEN conjunct2, THEN conjunct2,
      THEN conjunct1]
  note t8 = t [THEN conjunct2, THEN conjunct2, THEN conjunct2, THEN conjunct2, THEN conjunct2,
      THEN conjunct2, THEN conjunct2]
  have r: "render_step ?step = Inr [''  '' @ bullet @ '' Build'', ''    Error: boom'']"
    by code_simp
  have h1: "render_step ?step = Inr [''  '' @ bullet @ '' Build'', ''    Error: boom''] \<and>
      ''    Error: boom'' \<in> set [''  '' @ bullet @ '' Build'', ''    Error: boom''] \<and>
      startswith ''    Error: '' ''    Error: boom''"
    by code_simp
  have a: "length ''    Error: boom'' \<le> 11 + 250"
    by (rule t1 [THEN spec, THEN spec, THEN mp, OF h1])
  have h4: "length ''boom'' \<le> 300" by simp
  have b: "length (error_clean ''boom'') \<le> 300"
    by (rule t4 [THEN mp, OF h4])
  have h5: "''  1. boom'' \<in> set (key_section [''boom''])" by code_simp
  have c: "length ''  1. boom'' \<le> 5 + 303"
    by (rule t5 [THEN bspec, OF h5])
  have f: "failed_steps (on_test_failure ''FAILED test_x'' ?st) = [?ts]"
    by code_simp
  have h6: "?ts \<in> set (failed_steps (on_test_failure ''FAILED test_x'' ?st))"
    unfolding f by simp
  have h6x: "''FAILED test_x'' \<in> set (errors ?ts)" by simp
  have d: "length ''FAILED test_x'' \<le> 200 \<or>
      (\<exists>s0 \<in> set (failed_steps ?st). ''FAILED test_x'' \<in> set (errors s0))"
    by (rule t6 [THEN bspec, OF h6, THEN bspec, OF h6x])
  have h8: "on_traceback [''Traceback''] 0 ''Traceback'' ?st = Inr ?st'"
    by code_simp
  have h8s: "?bs \<in> set (failed_steps ?st')" by simp
  have h8x: "''Traceback'' \<in> set (errors ?bs)" by simp
  have g: "length ''Traceback'' \<le> 1000 \<or>
      (\<exists>s0 \<in> set (failed_steps ?st). ''Traceback'' \<in> set (errors s0))"
    by (rule t8 [THEN spec, THEN mp, OF h8, THEN bspec, OF h8s, THEN bspec, OF h8x])
  show ?thesis
    by (intro conjI) (rule r a b h5 c f d h8 g)+
qed

text \<open>
  An error marker with a message of 301 characters: the message is stored whole, and its
  rendered preview has 303 characters.
\<close>

theorem key_error_preview_counterexample:
  "scan_log (split_nl (''##[error]'' @ replicate 301 CHR ''a'')) =
     Inr \<lparr>current_step = None, step_stack = [], failed_steps = [],
          error_messages = [replicate 301 CHR ''a''], in_error_section = True,
          error_context = [replicate 301 CHR ''a''], exit_codes = []\<rparr> \<and>
   key_section [replicate 301 CHR ''a''] =
     [''KEY ERROR MESSAGES:'', dashes, ''  1. '' @ replicate 300 CHR ''a'' @ ''...'', []] \<and>
   length (replicate 300 CHR ''a'' @ ''...'') = 303"
  by code_simp

end
